theory Spec2Isabelle
  imports Main "HOL-Library.Char_ord" "HOL-Library.List_Lexorder" "HOL-Library.Sublist"
begin

section \<open>Characters, strings and ordered maps\<close>

text \<open>
  A \<open>std::string\<close> is a \<^typ>\<open>string\<close>, a list of bytes. The order on strings is the
  lexicographic order of \<open>std::string::compare\<close>: bytes compared by their unsigned value,
  a proper prefix before the longer string.
\<close>

abbreviation CR :: char where
  "CR \<equiv> CHR 0x0D"

abbreviation LF :: char where
  "LF \<equiv> CHR 0x0A"

abbreviation CRLF :: string where
  "CRLF \<equiv> [CR, LF]"

text \<open>
  \<open>std::map<std::string, V>\<close>: the entries in iteration order, which for a \<open>std::map\<close> is
  the ascending order of the keys. \<open>map_find\<close> is \<open>find\<close>, \<open>map_assign k v m\<close> is the
  statement \<open>m[k] = v\<close>, \<open>map_at\<close> is the reference \<open>m[k]\<close> of a key that is
  default-constructed when absent.
\<close>

type_synonym 'v std_map = "(string \<times> 'v) list"

definition map_find :: "'v std_map \<Rightarrow> string \<Rightarrow> 'v option" where
  "map_find m k = map_of m k"

fun map_assign :: "string \<Rightarrow> 'v \<Rightarrow> 'v std_map \<Rightarrow> 'v std_map" where
  "map_assign k v [] = [(k, v)]"
| "map_assign k v ((k', v') # m) =
     (if k = k' then (k, v) # m
      else if k < k' then (k, v) # (k', v') # m
      else (k', v') # map_assign k v m)"

definition map_at :: "'v \<Rightarrow> 'v std_map \<Rightarrow> string \<Rightarrow> 'v" where
  "map_at dflt m k = (case map_find m k of None \<Rightarrow> dflt | Some v \<Rightarrow> v)"

definition map_ok :: "'v std_map \<Rightarrow> bool" where
  "map_ok m = sorted_wrt (<) (map fst m)"

text \<open>A sequence of statements \<open>m[k] = v\<close>, in program order.\<close>

definition map_assign_all :: "(string \<times> 'v) list \<Rightarrow> 'v std_map \<Rightarrow> 'v std_map" where
  "map_assign_all kvs m = foldl (\<lambda>acc kv. map_assign (fst kv) (snd kv) acc) m kvs"

section \<open>The data model (socket.hpp)\<close>

record HttpResponse =
  status_code :: int
  status_text :: string
  headers :: "string std_map"
  body :: string

text \<open>The field \<open>method\<close> is written in quotes: the name is a keyword of Isabelle.\<close>

record HttpRequest =
  "method" :: string
  path :: string
  version :: string
  headers :: "string std_map"
  body :: string

text \<open>A default-constructed request: every string and the header map empty.\<close>

definition empty_request :: HttpRequest where
  "empty_request = \<lparr>method = [], path = [], version = [], headers = [], body = []\<rparr>"

text \<open>A default-constructed response: status 200, text \<open>OK\<close>.\<close>

definition default_response :: HttpResponse where
  "default_response =
     \<lparr>status_code = 200, status_text = ''OK'', HttpResponse.headers = [], HttpResponse.body = []\<rparr>"

text \<open>
  A call of a \<open>std::function\<close> returns a value or leaves by an exception; the handler of
  \<open>socket::handleClient\<close> tells exceptions derived from \<open>std::exception\<close> from all other
  thrown objects.
\<close>

datatype 'a outcome = Returns 'a | ThrowsStd string | ThrowsOther

type_synonym RequestHandler = "HttpRequest \<Rightarrow> HttpResponse outcome"

section \<open>Serialisation (socket::buildResponse)\<close>

text \<open>Decimal output of \<open>operator<<\<close> for \<open>size_t\<close> and \<open>int\<close>.\<close>

definition digit_char :: "nat \<Rightarrow> char" where
  "digit_char d = ''0123456789'' ! d"

fun show_nat :: "nat \<Rightarrow> string" where
  "show_nat n = (if n < 10 then [digit_char n] else show_nat (n div 10) @ [digit_char (n mod 10)])"

declare show_nat.simps [simp del]

definition show_int :: "int \<Rightarrow> string" where
  "show_int i = (if i < 0 then CHR ''-'' # show_nat (nat (- i)) else show_nat (nat i))"

text \<open>Reading a decimal numeral back, to say which number a digit string denotes.\<close>

definition digit_val :: "char \<Rightarrow> nat" where
  "digit_val c = of_char c - 48"

definition read_nat :: "string \<Rightarrow> nat" where
  "read_nat ds = foldl (\<lambda>a c. 10 * a + digit_val c) 0 ds"

definition header_line :: "string \<times> string \<Rightarrow> string" where
  "header_line h = fst h @ '': '' @ snd h @ CRLF"

definition status_line :: "HttpResponse \<Rightarrow> string" where
  "status_line response =
     ''HTTP/1.1 '' @ show_int (status_code response) @ '' '' @ status_text response @ CRLF"

definition buildResponse :: "HttpResponse \<Rightarrow> string" where
  "buildResponse response =
     status_line response
     @ concat (map header_line (HttpResponse.headers response))
     @ ''Content-Length: '' @ show_nat (length (HttpResponse.body response)) @ CRLF
     @ CRLF
     @ HttpResponse.body response"

section \<open>Parsing (socket::parseRequest)\<close>

text \<open>
  \<open>std::string::back()\<close> has the precondition \<open>!empty()\<close>; the call on an empty string
  is undefined behaviour, which the model returns as an error value.
\<close>

datatype error = UndefinedBehaviour

text \<open>
  \<open>std::getline(stream, line)\<close> on the rest of the input: it fails when no character is
  left, and otherwise extracts up to the next line feed, which it consumes and does not
  store. The result is the line and the rest of the stream.
\<close>

definition getline :: "string \<Rightarrow> (string \<times> string) option" where
  "getline stream =
     (if stream = [] then None
      else Some (takeWhile (\<lambda>c. c \<noteq> LF) stream, drop 1 (dropWhile (\<lambda>c. c \<noteq> LF) stream)))"

text \<open>\<open>if (line.back() == '\r') line.pop_back();\<close>\<close>

definition pop_back_cr :: "string \<Rightarrow> error + string" where
  "pop_back_cr line =
     (if line = [] then Inl UndefinedBehaviour
      else if last line = CR then Inr (butlast line)
      else Inr line)"

text \<open>
  \<open>stream >> word\<close> for a string: skip the white space of the classic locale, then take
  the characters up to the next white space. When the input ends before a character is
  found the extraction fails and its target keeps its value, the empty string of the
  fresh request; the input left over is empty then, so that a further extraction gives
  the empty string again.
\<close>

definition isspace :: "char \<Rightarrow> bool" where
  "isspace c = (c = CHR '' '' \<or> c = CHR 0x09 \<or> c = LF \<or> c = CHR 0x0B \<or> c = CHR 0x0C \<or> c = CR)"

definition extract_word :: "string \<Rightarrow> string \<times> string" where
  "extract_word stream =
     (let s = dropWhile isspace stream
      in (takeWhile (\<lambda>c. \<not> isspace c) s, dropWhile (\<lambda>c. \<not> isspace c) s))"

text \<open>\<open>first_line >> request.method >> request.path >> request.version;\<close>\<close>

definition parse_first_line :: "string \<Rightarrow> HttpRequest \<Rightarrow> HttpRequest" where
  "parse_first_line line request =
     (let (m, s1) = extract_word line;
          (p, s2) = extract_word s1;
          (v, s3) = extract_word s2
      in request\<lparr>method := m, path := p, version := v\<rparr>)"

text \<open>\<open>line.find(c)\<close>: the first position of the character, \<open>None\<close> for \<open>npos\<close>.\<close>

fun find_char :: "char \<Rightarrow> string \<Rightarrow> nat option" where
  "find_char c [] = None"
| "find_char c (x # xs) = (if x = c then Some 0 else map_option Suc (find_char c xs))"

text \<open>
  The body of the header loop after the carriage return is removed. \<open>substr(pos)\<close> and
  \<open>substr(0, n)\<close> are \<open>drop\<close> and \<open>take\<close>: \<open>substr\<close> throws only for a position beyond
  the size, and both positions here are within the string (\<open>colon_pos + 1 \<le> size\<close>, and
  \<open>1 \<le> size\<close> for a value that is not empty).
\<close>

definition parse_header :: "string \<Rightarrow> string std_map \<Rightarrow> string std_map" where
  "parse_header line hs =
     (case find_char (CHR '':'') line of
        None \<Rightarrow> hs
      | Some colon_pos \<Rightarrow>
          (let key = take colon_pos line;
               val = drop (colon_pos + 1) line;
               val' = (if val \<noteq> [] \<and> hd val = CHR '' '' then drop 1 val else val)
           in map_assign key val' hs))"

lemma getline_shorter: "getline stream = Some (line, rest) \<Longrightarrow> length rest < length stream"
proof -
  assume g: "getline stream = Some (line, rest)"
  then have ne: "stream \<noteq> []" and r: "rest = drop 1 (dropWhile (\<lambda>c. c \<noteq> LF) stream)"
    by (auto simp: getline_def split: if_splits)
  show ?thesis
  proof (cases "dropWhile (\<lambda>c. c \<noteq> LF) stream")
    case Nil
    with r ne show ?thesis by simp
  next
    case (Cons x xs)
    have "length (dropWhile (\<lambda>c. c \<noteq> LF) stream) \<le> length stream"
      by (rule length_dropWhile_le)
    with Cons r show ?thesis by simp
  qed
qed

text \<open>
  \<open>while (std::getline(stream, line) && line != "\r") { ... }\<close>: the headers collected and
  the input left for the body.
\<close>

function header_loop :: "string \<Rightarrow> string std_map \<Rightarrow> error + (string std_map \<times> string)" where
  "header_loop stream hs =
     (case getline stream of
        None \<Rightarrow> Inr (hs, stream)
      | Some (line, rest) \<Rightarrow>
          if line = [CR] then Inr (hs, rest)
          else (case pop_back_cr line of
                  Inl e \<Rightarrow> Inl e
                | Inr line' \<Rightarrow> header_loop rest (parse_header line' hs)))"
  by pat_completeness auto
termination
  by (relation "measure (\<lambda>(stream, hs). length stream)") (auto simp: getline_shorter)

declare header_loop.simps [simp del]

text \<open>\<open>while (std::getline(stream, body_line)) request.body += body_line + "\n";\<close>\<close>

function body_loop :: "string \<Rightarrow> string \<Rightarrow> string" where
  "body_loop stream acc =
     (case getline stream of
        None \<Rightarrow> acc
      | Some (body_line, rest) \<Rightarrow> body_loop rest (acc @ body_line @ [LF]))"
  by pat_completeness auto
termination
  by (relation "measure (\<lambda>(stream, acc). length stream)") (auto simp: getline_shorter)

declare body_loop.simps [simp del]

text \<open>The header loop, the body loop and the final \<open>pop_back\<close> of a body that is not empty.\<close>

definition parse_rest :: "HttpRequest \<Rightarrow> string \<Rightarrow> error + HttpRequest" where
  "parse_rest request stream =
     (case header_loop stream (headers request) of
        Inl e \<Rightarrow> Inl e
      | Inr (hs, rest) \<Rightarrow>
          (let b = body_loop rest (body request);
               b' = (if b \<noteq> [] then butlast b else b)
           in Inr (request\<lparr>headers := hs, body := b'\<rparr>)))"

definition parseRequest :: "string \<Rightarrow> error + HttpRequest" where
  "parseRequest raw_request =
     (case getline raw_request of
        None \<Rightarrow> parse_rest empty_request raw_request
      | Some (line, rest) \<Rightarrow>
          (case pop_back_cr line of
             Inl e \<Rightarrow> Inl e
           | Inr line' \<Rightarrow> parse_rest (parse_first_line line' empty_request) rest))"

section \<open>One connection (socket::handleClient)\<close>

text \<open>
  The result of the single \<open>read\<close> into the zeroed buffer of 4096 bytes: a count that is
  not positive, or the bytes stored (at most 4095). \<open>std::string raw_request(buffer)\<close>
  takes the bytes before the first zero byte.
\<close>

datatype read_result = ReadFailed | ReadData string

text \<open>
  What a connection ends with: closed without a response; a response sent and the
  connection closed; an exception that leaves \<open>handleClient\<close>, the function of a detached
  thread; undefined behaviour.
\<close>

datatype connection = ClosedSilently | Sent string | Uncaught | Undefined

definition error_response :: string where
  "error_response =
     ''HTTP/1.1 500 Internal Server Error'' @ CRLF
     @ ''Content-Type: text/plain'' @ CRLF
     @ ''Content-Length: 21'' @ CRLF
     @ CRLF
     @ ''Internal Server Error''"

definition handleClient :: "RequestHandler \<Rightarrow> read_result \<Rightarrow> connection" where
  "handleClient m_request_handler rd =
     (case rd of
        ReadFailed \<Rightarrow> ClosedSilently
      | ReadData buf \<Rightarrow>
          if take 4095 buf = [] then ClosedSilently
          else
            (let raw_request = takeWhile (\<lambda>c. c \<noteq> CHR 0x00) (take 4095 buf)
             in case parseRequest raw_request of
                  Inl UndefinedBehaviour \<Rightarrow> Undefined
                | Inr request \<Rightarrow>
                    (case m_request_handler request of
                       Returns response \<Rightarrow> Sent (buildResponse response)
                     | ThrowsStd what \<Rightarrow> Sent error_response
                     | ThrowsOther \<Rightarrow> Uncaught)))"

text \<open>The fixed not-found response of the router and of the handler a new socket has.\<close>

definition not_found_response :: HttpResponse where
  "not_found_response =
     default_response
       \<lparr>status_code := 404,
        status_text := ''Not Found'',
        HttpResponse.headers :=
          map_assign ''Content-Type'' ''text/html'' (HttpResponse.headers default_response),
        HttpResponse.body := ''<html><body><h1>404 - Not Found</h1></body></html>''\<rparr>"

definition default_handler :: RequestHandler where
  "default_handler req = Returns not_found_response"

section \<open>The router (ghettp.cpp)\<close>

text \<open>
  The listening socket, with the system calls that \<open>socket::stop\<close> issues, and the server
  thread. A thread object is joinable from its construction until it is joined; the
  function of the server thread is \<open>socket::run\<close>, and what \<open>join\<close> does depends on how
  far that function has got when \<open>socket::stop\<close> stores \<open>false\<close> in the running flag of the
  socket: not yet at its first statement \<open>m_running = true\<close>, in the accept loop after
  that statement, or returned.
\<close>

datatype syscall = Shutdown int

record socket =
  m_port :: int
  m_socket_fd :: int
  m_running :: bool
  issued :: "syscall list"

datatype progress = NotEntered | InLoop | Exited

datatype thread = NotAThread | Joinable progress

record server =
  m_socket :: socket
  m_routes :: "RequestHandler std_map std_map"
  m_server_thread :: thread
  m_running :: bool

text \<open>\<open>socket::stop\<close>\<close>

definition socket_stop :: "socket \<Rightarrow> socket" where
  "socket_stop sock =
     (let sock1 = sock\<lparr>socket.m_running := False\<rparr>
      in if m_socket_fd sock1 \<noteq> - 1
         then sock1\<lparr>issued := issued sock1 @ [Shutdown (m_socket_fd sock1)]\<rparr>
         else sock1)"

text \<open>
  Whether \<open>socket::run\<close> returns, given the state of the socket and the progress of the
  thread. In the loop the thread is in \<open>accept\<close>, which fails once the socket is shut down
  (and fails at once on the descriptor \<open>-1\<close>); the failure branch continues the loop,
  whose condition then reads the flag: the function returns when the flag is \<open>false\<close>.
  A thread that has not yet executed \<open>m_running = true\<close> executes it after the store of
  \<open>socket::stop\<close>: the flag is \<open>true\<close> again, every \<open>accept\<close> on the shut-down socket fails,
  and the loop \<open>while (m_running)\<close> continues for ever.
\<close>

definition run_returns :: "socket \<Rightarrow> progress \<Rightarrow> bool" where
  "run_returns sock p =
     (case p of
        Exited \<Rightarrow> True
      | InLoop \<Rightarrow>
          \<not> socket.m_running sock
          \<and> (m_socket_fd sock = - 1 \<or> Shutdown (m_socket_fd sock) \<in> set (issued sock))
      | NotEntered \<Rightarrow> False)"

text \<open>
  \<open>std::thread::join\<close>: it throws \<open>std::system_error\<close> for a thread that is not joinable,
  and otherwise blocks until the function of the thread has returned. \<open>None\<close> is a call
  that does not return.
\<close>

definition thread_join :: "socket \<Rightarrow> thread \<Rightarrow> thread outcome option" where
  "thread_join sock t =
     (case t of
        NotAThread \<Rightarrow> Some (ThrowsStd ''Invalid argument'')
      | Joinable p \<Rightarrow> if run_returns sock p then Some (Returns NotAThread) else None)"

text \<open>\<open>server::stop\<close>; \<open>None\<close> is a call that does not return.\<close>

definition stop :: "server \<Rightarrow> server outcome option" where
  "stop srv =
     (if server.m_running srv then
        (let srv1 = srv\<lparr>server.m_running := False\<rparr>;
             srv2 = srv1\<lparr>m_socket := socket_stop (m_socket srv1)\<rparr>
         in if m_server_thread srv2 \<noteq> NotAThread then
              (case thread_join (m_socket srv2) (m_server_thread srv2) of
                 None \<Rightarrow> None
               | Some (Returns t) \<Rightarrow> Some (Returns (srv2\<lparr>m_server_thread := t\<rparr>))
               | Some (ThrowsStd what) \<Rightarrow> Some (ThrowsStd what)
               | Some ThrowsOther \<Rightarrow> Some ThrowsOther)
            else Some (Returns srv2))
      else Some (Returns srv))"

text \<open>
  \<open>server::start\<close>: it sets the flag of the server and move-assigns a new thread, which
  calls \<open>std::terminate\<close> when the thread object is still joinable. The new thread has
  not entered \<open>socket::run\<close> when \<open>start\<close> returns.
\<close>

datatype start_result = Started server | StdTerminate

definition start :: "server \<Rightarrow> start_result" where
  "start srv =
     (case m_server_thread srv of
        Joinable p \<Rightarrow> StdTerminate
      | NotAThread \<Rightarrow>
          Started (srv\<lparr>server.m_running := True, m_server_thread := Joinable NotEntered\<rparr>))"

text \<open>
  The step of the server thread that executes \<open>m_running = true\<close>, the first statement of
  \<open>socket::run\<close>, and enters the accept loop.
\<close>

definition run_begins :: "server \<Rightarrow> server" where
  "run_begins srv =
     (if m_server_thread srv = Joinable NotEntered
      then srv\<lparr>m_socket := (m_socket srv)\<lparr>socket.m_running := True\<rparr>,
               m_server_thread := Joinable InLoop\<rparr>
      else srv)"

text \<open>\<open>m_routes[verb][path] = handler\<close>, the body of \<open>get\<close>, \<open>post\<close>, \<open>put\<close> and \<open>del\<close>.\<close>

definition register_route ::
  "string \<Rightarrow> string \<Rightarrow> RequestHandler \<Rightarrow> RequestHandler std_map std_map
     \<Rightarrow> RequestHandler std_map std_map" where
  "register_route verb p handler routes =
     map_assign verb (map_assign p handler (map_at [] routes verb)) routes"

definition get :: "string \<Rightarrow> RequestHandler \<Rightarrow> server \<Rightarrow> server" where
  "get p handler srv = srv\<lparr>m_routes := register_route ''GET'' p handler (m_routes srv)\<rparr>"

definition post :: "string \<Rightarrow> RequestHandler \<Rightarrow> server \<Rightarrow> server" where
  "post p handler srv = srv\<lparr>m_routes := register_route ''POST'' p handler (m_routes srv)\<rparr>"

definition put :: "string \<Rightarrow> RequestHandler \<Rightarrow> server \<Rightarrow> server" where
  "put p handler srv = srv\<lparr>m_routes := register_route ''PUT'' p handler (m_routes srv)\<rparr>"

definition del :: "string \<Rightarrow> RequestHandler \<Rightarrow> server \<Rightarrow> server" where
  "del p handler srv = srv\<lparr>m_routes := register_route ''DELETE'' p handler (m_routes srv)\<rparr>"

text \<open>\<open>server::routeRequest\<close>, the dispatch callback the constructor installs.\<close>

definition routeRequest :: "server \<Rightarrow> RequestHandler" where
  "routeRequest srv request =
     (case map_find (m_routes srv) (method request) of
        Some method_routes \<Rightarrow>
          (case map_find method_routes (path request) of
             Some route \<Rightarrow> route request
           | None \<Rightarrow> Returns not_found_response)
      | None \<Rightarrow> Returns not_found_response)"

text \<open>
  A server after its constructor returned: no route, not running, no thread. The calls
  of the registration interface, and a sequence of them in program order.
\<close>

definition created :: "int \<Rightarrow> int \<Rightarrow> server" where
  "created port fd =
     \<lparr>m_socket = \<lparr>m_port = port, m_socket_fd = fd, socket.m_running = False, issued = []\<rparr>,
      m_routes = [], m_server_thread = NotAThread, server.m_running = False\<rparr>"

datatype registration =
    Get string RequestHandler
  | Post string RequestHandler
  | Put string RequestHandler
  | Del string RequestHandler

fun register :: "registration \<Rightarrow> server \<Rightarrow> server" where
  "register (Get p h) srv = get p h srv"
| "register (Post p h) srv = post p h srv"
| "register (Put p h) srv = put p h srv"
| "register (Del p h) srv = del p h srv"

fun reg_method :: "registration \<Rightarrow> string" where
  "reg_method (Get p h) = ''GET''"
| "reg_method (Post p h) = ''POST''"
| "reg_method (Put p h) = ''PUT''"
| "reg_method (Del p h) = ''DELETE''"

fun reg_path :: "registration \<Rightarrow> string" where
  "reg_path (Get p h) = p"
| "reg_path (Post p h) = p"
| "reg_path (Put p h) = p"
| "reg_path (Del p h) = p"

fun reg_handler :: "registration \<Rightarrow> RequestHandler" where
  "reg_handler (Get p h) = h"
| "reg_handler (Post p h) = h"
| "reg_handler (Put p h) = h"
| "reg_handler (Del p h) = h"

definition register_all :: "registration list \<Rightarrow> server \<Rightarrow> server" where
  "register_all regs srv = foldl (\<lambda>s r. register r s) srv regs"

section \<open>Response helpers and example handlers\<close>

text \<open>\<open>server::html\<close>, \<open>server::json\<close> and \<open>server::text\<close>.\<close>

definition html :: "string \<Rightarrow> int \<Rightarrow> HttpResponse" where
  "html content code =
     default_response
       \<lparr>status_code := code,
        status_text := (if code = 200 then ''OK'' else ''Error''),
        HttpResponse.headers :=
          map_assign ''Content-Type'' ''text/html'' (HttpResponse.headers default_response),
        HttpResponse.body := content\<rparr>"

definition json :: "string \<Rightarrow> int \<Rightarrow> HttpResponse" where
  "json content code =
     default_response
       \<lparr>status_code := code,
        status_text := (if code = 200 then ''OK'' else ''Error''),
        HttpResponse.headers :=
          map_assign ''Content-Type'' ''application/json'' (HttpResponse.headers default_response),
        HttpResponse.body := content\<rparr>"

definition text_plain :: "string \<Rightarrow> int \<Rightarrow> HttpResponse" where
  "text_plain content code =
     default_response
       \<lparr>status_code := code,
        status_text := (if code = 200 then ''OK'' else ''Error''),
        HttpResponse.headers :=
          map_assign ''Content-Type'' ''text/plain'' (HttpResponse.headers default_response),
        HttpResponse.body := content\<rparr>"

text \<open>
  Handlers an application can register: one that answers with a page, one that returns
  the request body, one that leaves by \<open>throw std::runtime_error("boom")\<close>, one that
  leaves by \<open>throw 42\<close>, and one that sets a \<open>Content-Length\<close> of its own.
\<close>

definition hi_handler :: RequestHandler where
  "hi_handler req = Returns (html ''<h1>Hi</h1>'' 200)"

definition echo_handler :: RequestHandler where
  "echo_handler req = Returns (text_plain (body req) 200)"


definition throws_int :: RequestHandler where
  "throws_int req = ThrowsOther"

definition forged_length_response :: HttpResponse where
  "forged_length_response =
     (html ''hello world'' 200)
       \<lparr>HttpResponse.headers :=
          map_assign ''Content-Length'' ''5'' (HttpResponse.headers (html ''hello world'' 200))\<rparr>"

definition forged_length_handler :: RequestHandler where
  "forged_length_handler req = Returns forged_length_response"

text \<open>
  A server right after \<open>start\<close> returned, the same server once its thread is in the
  accept loop, and that server after \<open>stop\<close>.
\<close>

definition started_server :: server where
  "started_server =
     \<lparr>m_socket = \<lparr>m_port = 8080, m_socket_fd = 3, socket.m_running = False, issued = []\<rparr>,
      m_routes = [], m_server_thread = Joinable NotEntered, server.m_running = True\<rparr>"

definition serving_server :: server where
  "serving_server =
     \<lparr>m_socket = \<lparr>m_port = 8080, m_socket_fd = 3, socket.m_running = True, issued = []\<rparr>,
      m_routes = [], m_server_thread = Joinable InLoop, server.m_running = True\<rparr>"

definition stopped_server :: server where
  "stopped_server =
     \<lparr>m_socket = \<lparr>m_port = 8080, m_socket_fd = 3, socket.m_running = False,
        issued = [Shutdown 3]\<rparr>,
      m_routes = [], m_server_thread = NotAThread, server.m_running = False\<rparr>"

text \<open>A response whose handler set a \<open>Content-Length\<close> equal to the length of the body.\<close>

definition echoed_length_response :: HttpResponse where
  "echoed_length_response =
     default_response
       \<lparr>HttpResponse.headers :=
          map_assign ''Content-Length'' ''2'' (HttpResponse.headers default_response),
        HttpResponse.body := ''ab''\<rparr>"

definition get_root_bytes :: string where
  "get_root_bytes = ''GET / HTTP/1.1'' @ CRLF @ CRLF"

definition echo_bytes :: string where
  "echo_bytes =
     ''POST /echo HTTP/1.1'' @ CRLF @ ''Host: a'' @ CRLF @ CRLF @ ''abc'' @ [LF] @ ''def'' @ [LF]"

definition get_root_request :: HttpRequest where
  "get_root_request =
     \<lparr>method = ''GET'', path = ''/'', version = ''HTTP/1.1'', headers = [], body = []\<rparr>"

section \<open>Lines of the input\<close>

text \<open>
  The lines of a text as successive calls of \<open>getline\<close> deliver them, the join of lines
  with single line feeds between them, and the two parts of a request text: the request
  line with the header lines up to the first line that is a lone carriage return, and
  the lines after that line.
\<close>

function lines_of :: "string \<Rightarrow> string list" where
  "lines_of stream =
     (case getline stream of
        None \<Rightarrow> []
      | Some (line, rest) \<Rightarrow> line # lines_of rest)"
  by pat_completeness auto
termination
  by (relation "measure length") (auto simp: getline_shorter)

declare lines_of.simps [simp del]

fun join_lines :: "string list \<Rightarrow> string" where
  "join_lines [] = []"
| "join_lines [l] = l"
| "join_lines (l # l' # ls) = l @ [LF] @ join_lines (l' # ls)"

definition body_lines :: "string \<Rightarrow> string list" where
  "body_lines raw = drop 1 (dropWhile (\<lambda>line. line \<noteq> [CR]) (drop 1 (lines_of raw)))"

definition head_lines :: "string \<Rightarrow> string list" where
  "head_lines raw =
     take 1 (lines_of raw) @ takeWhile (\<lambda>line. line \<noteq> [CR]) (drop 1 (lines_of raw))"

text \<open>
  The words of the specification for the request line and the header lines: a line
  without the carriage return of its line end; the header lines, between the request
  line and the terminator; a header line split at its first colon into the name before
  it and the value after it, less one leading space; the value of the last header line
  with a given name.
\<close>

definition chomp :: "string \<Rightarrow> string" where
  "chomp line = (if line \<noteq> [] \<and> last line = CR then butlast line else line)"

definition header_lines :: "string \<Rightarrow> string list" where
  "header_lines raw = map chomp (takeWhile (\<lambda>line. line \<noteq> [CR]) (drop 1 (lines_of raw)))"

definition has_colon :: "string \<Rightarrow> bool" where
  "has_colon line = (CHR '':'' \<in> set line)"

definition header_name :: "string \<Rightarrow> string" where
  "header_name line = takeWhile (\<lambda>c. c \<noteq> CHR '':'') line"

definition header_value :: "string \<Rightarrow> string" where
  "header_value line =
     (case drop 1 (dropWhile (\<lambda>c. c \<noteq> CHR '':'') line) of
        [] \<Rightarrow> []
      | c # cs \<Rightarrow> if c = CHR '' '' then cs else c # cs)"

definition last_value :: "string \<Rightarrow> string list \<Rightarrow> string option" where
  "last_value k ls =
     (case find (\<lambda>line. has_colon line \<and> header_name line = k) (rev ls) of
        None \<Rightarrow> None
      | Some line \<Rightarrow> Some (header_value line))"

text \<open>
  The white-space separated tokens of a line, the token at a position (empty when the
  line has fewer tokens), and the request line, the first line of the input.
\<close>

lemma token_shorter:
  "dropWhile isspace s \<noteq> [] \<Longrightarrow>
   length (dropWhile (\<lambda>c. \<not> isspace c) (dropWhile isspace s)) < length s"
proof -
  assume ne: "dropWhile isspace s \<noteq> []"
  then obtain x xs where c: "dropWhile isspace s = x # xs" by (cases "dropWhile isspace s") auto
  then have "\<not> isspace x" using hd_dropWhile [OF ne] by simp
  then have "dropWhile (\<lambda>c. \<not> isspace c) (x # xs) = dropWhile (\<lambda>c. \<not> isspace c) xs" by simp
  moreover have "length (dropWhile (\<lambda>c. \<not> isspace c) xs) \<le> length xs"
    by (rule length_dropWhile_le)
  moreover have "length (x # xs) \<le> length s"
    unfolding c [symmetric] by (rule length_dropWhile_le)
  ultimately show ?thesis unfolding c by simp
qed

function tokens :: "string \<Rightarrow> string list" where
  "tokens s =
     (if dropWhile isspace s = [] then []
      else takeWhile (\<lambda>c. \<not> isspace c) (dropWhile isspace s)
           # tokens (dropWhile (\<lambda>c. \<not> isspace c) (dropWhile isspace s)))"
  by pat_completeness auto
termination
  by (relation "measure length") (auto simp: token_shorter)

declare tokens.simps [simp del]

definition token_at :: "string list \<Rightarrow> nat \<Rightarrow> string" where
  "token_at ts i = (if i < length ts then ts ! i else [])"

definition request_line :: "string \<Rightarrow> string" where
  "request_line raw = (case lines_of raw of [] \<Rightarrow> [] | line # ls \<Rightarrow> chomp line)"

section \<open>Facts about ordered maps\<close>

lemma map_find_empty: "map_find [] k = None"
  by (simp add: map_find_def)

lemma map_find_assign:
  "map_find (map_assign k v m) k' = (if k' = k then Some v else map_find m k')"
  by (induction m) (auto simp: map_find_def)

lemma set_map_assign_keys: "fst ` set (map_assign k v m) = insert k (fst ` set m)"
proof (induction m)
  case Nil
  then show ?case by simp
next
  case (Cons e m)
  obtain k' v' where e: "e = (k', v')" by (cases e)
  show ?case
    unfolding e using Cons.IH by (simp add: insert_commute)
qed

lemma map_ok_assign: "map_ok m \<Longrightarrow> map_ok (map_assign k v m)"
proof (induction m)
  case Nil
  then show ?case by (simp add: map_ok_def)
next
  case (Cons e m)
  obtain k' v' where e: "e = (k', v')" by (cases e)
  from Cons.prems have tl_ok: "map_ok m" and hd_lt: "\<forall>x \<in> fst ` set m. k' < x"
    by (auto simp: map_ok_def e)
  show ?case
  proof (cases "k = k'")
    case True
    with Cons.prems show ?thesis by (simp add: map_ok_def e)
  next
    case ne: False
    show ?thesis
    proof (cases "k < k'")
      case True
      with Cons.prems ne show ?thesis by (auto simp: map_ok_def e)
    next
      case False
      with ne have gt: "k' < k" by simp
      have "map_ok (map_assign k v m)" using Cons.IH tl_ok .
      moreover have "\<forall>x \<in> fst ` set (map_assign k v m). k' < x"
        using hd_lt gt by (simp add: set_map_assign_keys)
      ultimately show ?thesis using ne False by (simp add: map_ok_def e)
    qed
  qed
qed

lemma map_ok_assign_all: "map_ok m \<Longrightarrow> map_ok (map_assign_all kvs m)"
  unfolding map_assign_all_def by (induction kvs arbitrary: m) (simp_all add: map_ok_assign)

lemma map_ok_empty: "map_ok []"
  by (simp add: map_ok_def)

text \<open>Two ordered maps with the same contents have the same entries in the same order.\<close>

lemma map_ok_unique:
  assumes "map_ok m" and "map_ok m'" and "map_of m = map_of m'"
  shows "m = m'"
proof -
  have s: "sorted (map fst m)" "sorted (map fst m')"
    and d: "distinct (map fst m)" "distinct (map fst m')"
    using assms(1,2) by (simp_all add: map_ok_def strict_sorted_iff)
  have eq: "set m = set m'"
    using d assms(3) by (simp add: map_of_inject_set)
  have "inj_on fst (set m)"
    using d(1) by (simp add: distinct_map)
  then have "inj_on fst (set m \<union> set m')"
    using eq by simp
  then show ?thesis
    using s(1) d(1) s(2) d(2) eq by (rule map_sorted_distinct_set_unique)
qed

section \<open>Facts about parsing\<close>

lemma lines_of_Nil: "lines_of [] = []"
  by (simp add: lines_of.simps [of "[]"] getline_def)

lemma getline_None: "getline stream = None \<longleftrightarrow> stream = []"
  by (simp add: getline_def)

lemma lines_of_Some: "getline stream = Some (line, rest) \<Longrightarrow> lines_of stream = line # lines_of rest"
  by (simp add: lines_of.simps [of stream])

lemma body_loop_Nil: "body_loop [] acc = acc"
  by (simp add: body_loop.simps [of "[]"] getline_def)

lemma header_loop_Nil: "header_loop [] hs = Inr (hs, [])"
  by (simp add: header_loop.simps [of "[]"] getline_def)

lemma body_loop_lines:
  "body_loop stream acc = acc @ concat (map (\<lambda>l. l @ [LF]) (lines_of stream))"
proof (induction stream acc rule: body_loop.induct)
  case (1 stream acc)
  show ?case
  proof (cases "getline stream")
    case None
    then show ?thesis
      by (simp add: getline_None body_loop_Nil lines_of_Nil)
  next
    case (Some lr)
    obtain line rest where lr: "lr = (line, rest)" by (cases lr)
    have "body_loop rest (acc @ line @ [LF])
        = (acc @ line @ [LF]) @ concat (map (\<lambda>l. l @ [LF]) (lines_of rest))"
      using "1.IH" Some lr by simp
    then show ?thesis
      using Some lr by (simp add: body_loop.simps [of stream] lines_of_Some)
  qed
qed

lemma butlast_terminated_lines:
  "ls \<noteq> [] \<Longrightarrow> butlast (concat (map (\<lambda>l. l @ [LF]) ls)) = join_lines ls"
proof (induction ls rule: join_lines.induct)
  case 1
  then show ?case by simp
next
  case (2 l)
  then show ?case by (simp add: butlast_append)
next
  case (3 l l' ls)
  have "concat (map (\<lambda>l. l @ [LF]) (l' # ls)) \<noteq> []" by simp
  then have "butlast (concat (map (\<lambda>l. l @ [LF]) (l # l' # ls)))
      = (l @ [LF]) @ butlast (concat (map (\<lambda>l. l @ [LF]) (l' # ls)))"
    by (simp only: list.map concat.simps butlast_append if_False)
  with 3 show ?case by simp
qed

lemma body_of_lines:
  "(let b = body_loop stream [] in if b \<noteq> [] then butlast b else b) = join_lines (lines_of stream)"
proof (cases "lines_of stream")
  case Nil
  then show ?thesis by (simp add: body_loop_lines)
next
  case (Cons l ls)
  then have "butlast (concat (map (\<lambda>l. l @ [LF]) (lines_of stream))) = join_lines (lines_of stream)"
    by (intro butlast_terminated_lines) simp
  with Cons show ?thesis by (simp add: body_loop_lines)
qed

lemma header_loop_rest:
  "header_loop stream hs = Inr (hs', rest) \<Longrightarrow>
   lines_of rest = drop 1 (dropWhile (\<lambda>line. line \<noteq> [CR]) (lines_of stream))"
proof (induction stream hs rule: header_loop.induct)
  case (1 stream hs)
  show ?case
  proof (cases "getline stream")
    case None
    with "1.prems" show ?thesis
      by (simp add: getline_None header_loop_Nil lines_of_Nil)
  next
    case (Some lr)
    obtain line rest' where lr: "lr = (line, rest')" by (cases lr)
    note ls = lines_of_Some [OF Some [unfolded lr]]
    show ?thesis
    proof (cases "line = [CR]")
      case True
      with "1.prems" Some lr ls show ?thesis
        by (simp add: header_loop.simps [of stream])
    next
      case False
      from "1.prems" Some lr False obtain line' where
        p: "pop_back_cr line = Inr line'"
        and h: "header_loop rest' (parse_header line' hs) = Inr (hs', rest)"
        by (auto simp: header_loop.simps [of stream] split: sum.splits)
      have "lines_of rest = drop 1 (dropWhile (\<lambda>line. line \<noteq> [CR]) (lines_of rest'))"
        using "1.IH" [OF Some lr [symmetric] False p h] .
      with False ls show ?thesis by simp
    qed
  qed
qed

lemma parse_first_line_body: "body (parse_first_line line request) = body request"
  by (simp add: parse_first_line_def split: prod.splits)

lemma parse_rest_body:
  "parse_rest request stream = Inr request' \<Longrightarrow> body request = [] \<Longrightarrow>
   body request' = join_lines (drop 1 (dropWhile (\<lambda>line. line \<noteq> [CR]) (lines_of stream)))"
proof -
  assume a: "parse_rest request stream = Inr request'" and b: "body request = []"
  from a obtain hs rest where h: "header_loop stream (headers request) = Inr (hs, rest)"
    and r: "request' = request\<lparr>headers := hs,
        body := (let b = body_loop rest (body request) in if b \<noteq> [] then butlast b else b)\<rparr>"
    by (auto simp: parse_rest_def Let_def split: sum.splits)
  from r b have "body request' = join_lines (lines_of rest)"
    using body_of_lines [of rest] by simp
  with header_loop_rest [OF h] show ?thesis by simp
qed

lemma pop_back_cr_Inl: "pop_back_cr line = Inl e \<longleftrightarrow> line = []"
  by (cases e) (simp add: pop_back_cr_def)

lemma pop_back_cr_Inr: "pop_back_cr line = Inr line' \<longleftrightarrow> line \<noteq> [] \<and> line' = chomp line"
  by (auto simp: pop_back_cr_def chomp_def)

lemma header_loop_returns_iff:
  "(\<exists>res. header_loop stream hs = Inr res)
   \<longleftrightarrow> [] \<notin> set (takeWhile (\<lambda>line. line \<noteq> [CR]) (lines_of stream))"
proof (induction stream hs rule: header_loop.induct)
  case (1 stream hs)
  show ?case
  proof (cases "getline stream")
    case None
    then show ?thesis
      by (simp add: getline_None header_loop_Nil lines_of_Nil)
  next
    case (Some lr)
    obtain line rest where lr: "lr = (line, rest)" by (cases lr)
    note ls = lines_of_Some [OF Some [unfolded lr]]
    show ?thesis
    proof (cases "line = [CR]")
      case True
      with Some lr ls show ?thesis
        by (simp add: header_loop.simps [of stream])
    next
      case ncr: False
      show ?thesis
      proof (cases "line = []")
        case True
        with Some lr ls show ?thesis
          by (simp add: header_loop.simps [of stream] pop_back_cr_def)
      next
        case False
        then have p: "pop_back_cr line = Inr (chomp line)"
          by (simp add: pop_back_cr_Inr)
        have "(\<exists>res. header_loop rest (parse_header (chomp line) hs) = Inr res)
            \<longleftrightarrow> [] \<notin> set (takeWhile (\<lambda>line. line \<noteq> [CR]) (lines_of rest))"
          using "1.IH" [OF Some lr [symmetric] ncr p] .
        moreover have "header_loop stream hs = header_loop rest (parse_header (chomp line) hs)"
          using Some lr ncr p by (simp add: header_loop.simps [of stream])
        ultimately show ?thesis
          using ls ncr False by simp
      qed
    qed
  qed
qed

lemma parse_rest_returns_iff:
  "(\<exists>request'. parse_rest request stream = Inr request')
   \<longleftrightarrow> (\<exists>res. header_loop stream (headers request) = Inr res)"
  by (auto simp: parse_rest_def Let_def split: sum.splits)

text \<open>
  The parser returns a request on the inputs with no empty line among the request line
  and the header lines, and on no other.
\<close>

lemma parseRequest_returns_iff:
  "(\<exists>request. parseRequest raw = Inr request) \<longleftrightarrow> [] \<notin> set (head_lines raw)"
proof (cases "getline raw")
  case None
  then have raw: "raw = []" by (simp add: getline_None)
  have "\<exists>request. parse_rest empty_request [] = Inr request"
    by (simp add: parse_rest_returns_iff header_loop_Nil)
  then show ?thesis
    by (simp add: raw parseRequest_def getline_def head_lines_def lines_of_Nil)
next
  case (Some lr)
  obtain line rest where lr: "lr = (line, rest)" by (cases lr)
  note ls = lines_of_Some [OF Some [unfolded lr]]
  show ?thesis
  proof (cases "line = []")
    case True
    with Some lr ls show ?thesis
      by (simp add: parseRequest_def pop_back_cr_def head_lines_def)
  next
    case False
    then have p: "pop_back_cr line = Inr (chomp line)"
      by (simp add: pop_back_cr_Inr)
    have "parseRequest raw = parse_rest (parse_first_line (chomp line) empty_request) rest"
      using Some lr p by (simp add: parseRequest_def)
    then have "(\<exists>request. parseRequest raw = Inr request)
        \<longleftrightarrow> (\<exists>res. header_loop rest
              (headers (parse_first_line (chomp line) empty_request)) = Inr res)"
      by (simp only: parse_rest_returns_iff)
    also have "\<dots> \<longleftrightarrow> [] \<notin> set (takeWhile (\<lambda>line. line \<noteq> [CR]) (lines_of rest))"
      by (rule header_loop_returns_iff)
    finally have "(\<exists>request. parseRequest raw = Inr request)
        \<longleftrightarrow> [] \<notin> set (takeWhile (\<lambda>line. line \<noteq> [CR]) (lines_of rest))" .
    with False ls show ?thesis
      by (auto simp: head_lines_def)
  qed
qed


lemma find_char_None: "find_char c line = None \<longleftrightarrow> c \<notin> set line"
  by (induction line) auto

lemma find_char_Some:
  "find_char c line = Some n \<Longrightarrow>
   take n line = takeWhile (\<lambda>x. x \<noteq> c) line
   \<and> drop (Suc n) line = drop 1 (dropWhile (\<lambda>x. x \<noteq> c) line)"
  by (induction line arbitrary: n) (auto split: if_splits)

lemma map_find_parse_header:
  "map_find (parse_header line hs) k =
     (if has_colon line \<and> header_name line = k then Some (header_value line) else map_find hs k)"
proof (cases "find_char (CHR '':'') line")
  case None
  then have "\<not> has_colon line"
    by (simp add: has_colon_def find_char_None)
  with None show ?thesis
    by (simp add: parse_header_def)
next
  case (Some n)
  then have c: "has_colon line"
    using find_char_None [of "CHR '':''" line] by (simp add: has_colon_def)
  from find_char_Some [OF Some] have
    k: "take n line = header_name line"
    and v: "drop (Suc n) line = drop 1 (dropWhile (\<lambda>c. c \<noteq> CHR '':'') line)"
    by (simp_all add: header_name_def)
  have "(if drop (Suc n) line \<noteq> [] \<and> hd (drop (Suc n) line) = CHR '' ''
         then drop 1 (drop (Suc n) line) else drop (Suc n) line) = header_value line"
    unfolding v header_value_def
    by (cases "drop 1 (dropWhile (\<lambda>c. c \<noteq> CHR '':'') line)") simp_all
  then show ?thesis
    using Some c k by (auto simp: parse_header_def Let_def map_find_assign)
qed

lemma header_loop_fold:
  "header_loop stream hs = Inr (hs', rest) \<Longrightarrow>
   hs' = foldl (\<lambda>m line. parse_header line m) hs
           (map chomp (takeWhile (\<lambda>line. line \<noteq> [CR]) (lines_of stream)))"
proof (induction stream hs rule: header_loop.induct)
  case (1 stream hs)
  show ?case
  proof (cases "getline stream")
    case None
    with "1.prems" show ?thesis
      by (simp add: getline_None header_loop_Nil lines_of_Nil)
  next
    case (Some lr)
    obtain line rest' where lr: "lr = (line, rest')" by (cases lr)
    note ls = lines_of_Some [OF Some [unfolded lr]]
    show ?thesis
    proof (cases "line = [CR]")
      case True
      with "1.prems" Some lr ls show ?thesis
        by (simp add: header_loop.simps [of stream])
    next
      case False
      from "1.prems" Some lr False obtain line' where
        p: "pop_back_cr line = Inr line'"
        and h: "header_loop rest' (parse_header line' hs) = Inr (hs', rest)"
        by (auto simp: header_loop.simps [of stream] split: sum.splits)
      from p have l': "line' = chomp line" by (simp add: pop_back_cr_Inr)
      have "hs' = foldl (\<lambda>m line. parse_header line m) (parse_header line' hs)
           (map chomp (takeWhile (\<lambda>line. line \<noteq> [CR]) (lines_of rest')))"
        using "1.IH" [OF Some lr [symmetric] False p h] .
      with False ls l' show ?thesis by simp
    qed
  qed
qed

lemma last_value_snoc:
  "last_value k (ls @ [line]) =
     (if has_colon line \<and> header_name line = k then Some (header_value line) else last_value k ls)"
  by (simp add: last_value_def)

lemma map_find_fold_headers:
  "map_find (foldl (\<lambda>m line. parse_header line m) hs ls) k =
     (case last_value k ls of None \<Rightarrow> map_find hs k | Some v \<Rightarrow> Some v)"
proof (induction ls rule: rev_induct)
  case Nil
  then show ?case by (simp add: last_value_def)
next
  case (snoc line ls)
  then show ?case by (simp add: map_find_parse_header last_value_snoc)
qed

lemma parse_first_line_headers: "headers (parse_first_line line request) = headers request"
  by (simp add: parse_first_line_def split: prod.splits)

lemma parse_rest_headers:
  "parse_rest request stream = Inr request' \<Longrightarrow>
   headers request' = foldl (\<lambda>m line. parse_header line m) (headers request)
           (map chomp (takeWhile (\<lambda>line. line \<noteq> [CR]) (lines_of stream)))"
  by (auto simp: parse_rest_def Let_def split: sum.splits dest: header_loop_fold)

text \<open>
  The header map of a parsed request: a name is bound to the value of the last header
  line with that name, and to nothing when no header line has it.
\<close>

lemma parseRequest_headers:
  assumes "parseRequest raw = Inr request"
  shows "map_find (headers request) k = last_value k (header_lines raw)"
proof (cases "getline raw")
  case None
  then have raw: "raw = []" by (simp add: getline_None)
  from assms None have "parse_rest empty_request raw = Inr request"
    by (simp add: parseRequest_def)
  from parse_rest_headers [OF this] show ?thesis
    by (simp add: raw lines_of_Nil header_lines_def empty_request_def last_value_def map_find_def)
next
  case (Some lr)
  obtain line rest where lr: "lr = (line, rest)" by (cases lr)
  from assms Some lr obtain line' where
    "parse_rest (parse_first_line line' empty_request) rest = Inr request"
    by (auto simp: parseRequest_def split: sum.splits)
  from parse_rest_headers [OF this] have
    "headers request = foldl (\<lambda>m line. parse_header line m) []
           (map chomp (takeWhile (\<lambda>line. line \<noteq> [CR]) (lines_of rest)))"
    by (simp add: parse_first_line_headers empty_request_def)
  then have "map_find (headers request) k =
      (case last_value k (map chomp (takeWhile (\<lambda>line. line \<noteq> [CR]) (lines_of rest))) of
         None \<Rightarrow> map_find [] k | Some v \<Rightarrow> Some v)"
    by (simp only: map_find_fold_headers)
  then show ?thesis
    using lines_of_Some [OF Some [unfolded lr]]
    by (simp add: header_lines_def map_find_empty split: option.splits)
qed

lemma tokens_Nil: "tokens [] = []"
  by (simp add: tokens.simps [of "[]"])

lemma extract_word_Nil: "extract_word [] = ([], [])"
  by (simp add: extract_word_def)

lemma fst_extract_word:
  "fst (extract_word s) = takeWhile (\<lambda>c. \<not> isspace c) (dropWhile isspace s)"
  by (simp add: extract_word_def Let_def)

lemma snd_extract_word:
  "snd (extract_word s) = dropWhile (\<lambda>c. \<not> isspace c) (dropWhile isspace s)"
  by (simp add: extract_word_def Let_def)

lemma tokens_extract_word:
  "tokens s = (if fst (extract_word s) = [] then [] else fst (extract_word s) # tokens (snd (extract_word s)))"
proof (cases "dropWhile isspace s")
  case Nil
  show ?thesis
    unfolding tokens.simps [of s] fst_extract_word Nil by simp
next
  case (Cons x xs)
  then have ne: "dropWhile isspace s \<noteq> []" by simp
  have "\<not> isspace x" using hd_dropWhile [OF ne] Cons by simp
  with Cons show ?thesis by (simp add: tokens.simps [of s] fst_extract_word snd_extract_word)
qed

lemma extract_word_empty_rest: "fst (extract_word s) = [] \<Longrightarrow> snd (extract_word s) = []"
proof (cases "dropWhile isspace s")
  case Nil
  show ?thesis
    unfolding snd_extract_word Nil by simp
next
  case (Cons x xs)
  then have ne: "dropWhile isspace s \<noteq> []" by simp
  assume e: "fst (extract_word s) = []"
  have "\<not> isspace x" using hd_dropWhile [OF ne] Cons by simp
  with Cons e show ?thesis by (simp add: fst_extract_word)
qed

lemma token_at_0: "token_at (tokens s) 0 = fst (extract_word s)"
  by (subst tokens_extract_word) (simp add: token_at_def)

lemma token_at_Suc: "token_at (tokens s) (Suc i) = token_at (tokens (snd (extract_word s))) i"
proof (cases "fst (extract_word s) = []")
  case True
  then have "snd (extract_word s) = []" by (rule extract_word_empty_rest)
  with True show ?thesis
    by (subst tokens_extract_word) (simp add: token_at_def tokens_Nil)
next
  case False
  then show ?thesis
    by (subst tokens_extract_word) (simp add: token_at_def)
qed

lemma parse_first_line_tokens:
  "method (parse_first_line line request) = token_at (tokens line) 0
   \<and> path (parse_first_line line request) = token_at (tokens line) 1
   \<and> version (parse_first_line line request) = token_at (tokens line) 2"
proof -
  obtain m s1 where e1: "extract_word line = (m, s1)" by (cases "extract_word line")
  obtain p s2 where e2: "extract_word s1 = (p, s2)" by (cases "extract_word s1")
  obtain v s3 where e3: "extract_word s2 = (v, s3)" by (cases "extract_word s2")
  have 0: "token_at (tokens line) 0 = m"
    by (simp add: token_at_0 e1)
  have 1: "token_at (tokens line) (Suc 0) = p"
    using token_at_Suc [of line 0] by (simp add: token_at_0 e1 e2)
  have "token_at (tokens line) (Suc (Suc 0)) = v"
    using token_at_Suc [of line "Suc 0"] token_at_Suc [of s1 0]
    by (simp add: token_at_0 e1 e2 e3)
  then have 2: "token_at (tokens line) 2 = v"
    by (simp add: numeral_2_eq_2)
  show ?thesis
    by (simp add: parse_first_line_def e1 e2 e3 0 1 2)
qed

lemma parse_rest_request_line:
  "parse_rest request stream = Inr request' \<Longrightarrow>
   method request' = method request \<and> path request' = path request
   \<and> version request' = version request"
  by (auto simp: parse_rest_def Let_def split: sum.splits)

text \<open>
  The request line of a parsed request: method, path and version are its first three
  tokens, empty where the line has fewer.
\<close>

lemma parseRequest_request_line:
  assumes "parseRequest raw = Inr request"
  shows "method request = token_at (tokens (request_line raw)) 0
    \<and> path request = token_at (tokens (request_line raw)) 1
    \<and> version request = token_at (tokens (request_line raw)) 2"
proof (cases "getline raw")
  case None
  then have raw: "raw = []" by (simp add: getline_None)
  from assms None have "parse_rest empty_request raw = Inr request"
    by (simp add: parseRequest_def)
  from parse_rest_request_line [OF this] show ?thesis
    by (simp add: raw request_line_def lines_of_Nil tokens_Nil token_at_def empty_request_def)
next
  case (Some lr)
  obtain line rest where lr: "lr = (line, rest)" by (cases lr)
  from assms Some lr obtain line' where p: "pop_back_cr line = Inr line'"
    and r: "parse_rest (parse_first_line line' empty_request) rest = Inr request"
    by (auto simp: parseRequest_def split: sum.splits)
  from p have l': "line' = chomp line" by (simp add: pop_back_cr_Inr)
  have "request_line raw = chomp line"
    using lines_of_Some [OF Some [unfolded lr]] by (simp add: request_line_def)
  with parse_rest_request_line [OF r] l' show ?thesis
    by (simp add: parse_first_line_tokens)
qed

text \<open>
  The body of a parsed request: whenever \<open>parseRequest\<close> returns a request, its body is
  the lines that follow the first line after the request line that is a lone carriage
  return, joined with single line feeds and with no line feed added at the end; and it
  returns such a request for every input with no empty line among the request line and
  the header lines.
\<close>

lemma parseRequest_body:
  "(parseRequest raw = Inr request \<longrightarrow> body request = join_lines (body_lines raw))
   \<and> ([] \<notin> set (head_lines raw) \<longrightarrow>
        (\<exists>request'. parseRequest raw = Inr request'
           \<and> body request' = join_lines (body_lines raw)))"
proof (intro conjI impI)
  have *: "body rq = join_lines (body_lines raw)" if "parseRequest raw = Inr rq" for rq
  proof (cases "getline raw")
    case None
    then have raw: "raw = []" by (simp add: getline_None)
    from that None have "parse_rest empty_request raw = Inr rq"
      by (simp add: parseRequest_def)
    then have "body rq = join_lines (drop 1 (dropWhile (\<lambda>line. line \<noteq> [CR]) (lines_of raw)))"
      by (rule parse_rest_body) (simp add: empty_request_def)
    then show ?thesis by (simp add: raw body_lines_def lines_of_Nil)
  next
    case (Some lr)
    obtain line rest where lr: "lr = (line, rest)" by (cases lr)
    from that Some lr obtain line' where
      "parse_rest (parse_first_line line' empty_request) rest = Inr rq"
      by (auto simp: parseRequest_def split: sum.splits)
    then have "body rq = join_lines (drop 1 (dropWhile (\<lambda>line. line \<noteq> [CR]) (lines_of rest)))"
      by (rule parse_rest_body) (simp add: parse_first_line_body empty_request_def)
    then show ?thesis
      using lines_of_Some [OF Some [unfolded lr]] by (simp add: body_lines_def)
  qed
  {
    assume "parseRequest raw = Inr request"
    then show "body request = join_lines (body_lines raw)" by (rule *)
  next
    assume "[] \<notin> set (head_lines raw)"
    then obtain rq where "parseRequest raw = Inr rq"
      using parseRequest_returns_iff [of raw] by blast
    with * show "\<exists>request'. parseRequest raw = Inr request'
        \<and> body request' = join_lines (body_lines raw)"
      by blast
  }
qed

lemma parseRequest_body_example:
  "[] \<notin> set (head_lines echo_bytes)
   \<and> (\<exists>request'. parseRequest echo_bytes = Inr request'
         \<and> body request' = ''abc'' @ [LF] @ ''def'')"
proof -
  have h: "head_lines echo_bytes = [''POST /echo HTTP/1.1'' @ [CR], ''Host: a'' @ [CR]]"
    by code_simp
  have l: "body_lines echo_bytes = [''abc'', ''def'']"
    by code_simp
  have n: "[] \<notin> set (head_lines echo_bytes)"
    unfolding h by simp
  with parseRequest_body [of echo_bytes] have
    "\<exists>request'. parseRequest echo_bytes = Inr request'
        \<and> body request' = join_lines (body_lines echo_bytes)"
    by blast
  then have "\<exists>request'. parseRequest echo_bytes = Inr request'
        \<and> body request' = ''abc'' @ [LF] @ ''def''"
    unfolding l by simp
  with n show ?thesis by blast
qed

section \<open>Facts about routing and serialisation\<close>

lemma not_found_response_eq:
  "not_found_response =
     \<lparr>status_code = 404, status_text = ''Not Found'',
      HttpResponse.headers = [(''Content-Type'', ''text/html'')],
      HttpResponse.body = ''<html><body><h1>404 - Not Found</h1></body></html>''\<rparr>"
  by (simp add: not_found_response_def default_response_def)

lemma routeRequest_register:
  "routeRequest (register r srv) request =
     (if method request = reg_method r \<and> path request = reg_path r
      then reg_handler r request else routeRequest srv request)"
  by (cases r)
    (auto simp: routeRequest_def get_def post_def put_def del_def register_route_def
      map_at_def map_find_assign map_find_empty split: option.splits)

lemma register_all_snoc: "register_all (regs @ [r]) srv = register r (register_all regs srv)"
  by (simp add: register_all_def)

lemma routeRequest_later:
  "\<forall>r \<in> set later. \<not> (reg_method r = method request \<and> reg_path r = path request) \<Longrightarrow>
   routeRequest (register_all later srv) request = routeRequest srv request"
proof (induction later rule: rev_induct)
  case Nil
  then show ?case by (simp add: register_all_def)
next
  case (snoc r later)
  then show ?case by (auto simp: register_all_snoc routeRequest_register)
qed

lemma register_all_append:
  "register_all (xs @ ys) srv = register_all ys (register_all xs srv)"
  by (simp add: register_all_def)

lemma routeRequest_created: "routeRequest (created port fd) request = Returns not_found_response"
  by (simp add: routeRequest_def created_def map_find_def)

lemma digit_val_digit_char: "d < 10 \<Longrightarrow> digit_val (digit_char d) = d"
proof -
  assume d: "d < 10"
  have "\<forall>i \<in> set [0..<10]. digit_val (digit_char i) = i"
    by code_simp
  with d show ?thesis by simp
qed

lemma read_nat_snoc: "read_nat (ds @ [c]) = 10 * read_nat ds + digit_val c"
  by (simp add: read_nat_def)

lemma read_show_nat: "read_nat (show_nat n) = n"
proof (induction n rule: show_nat.induct)
  case (1 n)
  show ?case
  proof (cases "n < 10")
    case True
    then show ?thesis
      by (simp add: show_nat.simps [of n] read_nat_def digit_val_digit_char)
  next
    case False
    with 1 have "read_nat (show_nat (n div 10)) = n div 10" by simp
    with False show ?thesis
      by (simp add: show_nat.simps [of n] read_nat_snoc digit_val_digit_char)
  qed
qed

lemma header_line_sublist:
  "(k, v) \<in> set hs \<Longrightarrow> sublist (k @ '': '' @ v @ CRLF) (concat (map header_line hs))"
proof -
  assume "(k, v) \<in> set hs"
  then obtain xs ys where "hs = xs @ (k, v) # ys" by (auto dest: split_list)
  then have "concat (map header_line hs)
      = concat (map header_line xs) @ (k @ '': '' @ v @ CRLF) @ concat (map header_line ys)"
    by (simp add: header_line_def)
  then show ?thesis unfolding sublist_def by blast
qed

lemma map_assign_all_sorted:
  "sorted_wrt (<) (map fst (map_assign_all kvs []))"
  using map_ok_assign_all [OF map_ok_empty, of kvs] by (simp add: map_ok_def)

lemma forged_headers: "HttpResponse.headers forged_length_response = [(''Content-Length'', ''5''), (''Content-Type'', ''text/html'')]"
  by code_simp
lemma forged_body: "HttpResponse.body forged_length_response = ''hello world''"
  by code_simp
lemma show_nat_11: "show_nat 11 = ''11''" by code_simp

lemma handleClient_sends:
  assumes "take 4095 buf \<noteq> []"
    and "parseRequest (takeWhile (\<lambda>c. c \<noteq> CHR 0x00) (take 4095 buf)) = Inr request"
    and "handler request = Returns response"
  shows "handleClient handler (ReadData buf) = Sent (buildResponse response)"
  using assms by (simp add: handleClient_def)

lemma sorted_entries_later:
  fixes hs :: "'v std_map"
  assumes "sorted_wrt (<) (map fst hs)" and "hs = xs @ a # ys" and "b \<in> set hs"
    and "fst a < fst b"
  shows "b \<in> set ys"
proof -
  have "b \<notin> set xs"
  proof
    assume "b \<in> set xs"
    then have "fst b < fst a"
      using assms(1,2) by (auto simp: sorted_wrt_append)
    with assms(4) show False by simp
  qed
  moreover have "b \<noteq> a" using assms(4) by auto
  ultimately show ?thesis using assms(2,3) by auto
qed

lemma header_lines_in_order:
  fixes hs :: "string std_map"
  assumes "sorted_wrt (<) (map fst hs)" and "a \<in> set hs" and "b \<in> set hs" and "fst a < fst b"
  shows "\<exists>pre mid post. concat (map header_line hs) = pre @ header_line a @ mid @ header_line b @ post"
proof -
  from assms(2) obtain xs ys where hs: "hs = xs @ a # ys" by (auto dest: split_list)
  from sorted_entries_later [OF assms(1) hs assms(3,4)] obtain ys1 ys2 where
    ys: "ys = ys1 @ b # ys2" by (auto dest: split_list)
  have "concat (map header_line hs) = concat (map header_line xs) @ header_line a
      @ concat (map header_line ys1) @ header_line b @ concat (map header_line ys2)"
    by (simp add: hs ys)
  then show ?thesis by blast
qed

lemma header_line_before_tail:
  "(k, v) \<in> set hs \<Longrightarrow>
   \<exists>pre mid. front @ concat (map header_line hs) @ tail
      = pre @ (k @ '': '' @ v @ CRLF) @ mid @ tail"
proof -
  assume "(k, v) \<in> set hs"
  then obtain xs ys where "hs = xs @ (k, v) # ys" by (auto dest: split_list)
  then have "front @ concat (map header_line hs) @ tail
      = (front @ concat (map header_line xs)) @ (k @ '': '' @ v @ CRLF)
        @ concat (map header_line ys) @ tail"
    by (simp add: header_line_def)
  then show ?thesis by blast
qed

lemma echoed_fields:
  "status_code echoed_length_response = 200"
  "status_text echoed_length_response = ''OK''"
  "HttpResponse.headers echoed_length_response = [(''Content-Length'', ''2'')]"
  "HttpResponse.body echoed_length_response = ''ab''"
  by (simp_all add: echoed_length_response_def default_response_def)

lemma show_200: "show_int 200 = ''200''" by code_simp
lemma show_nat_2: "show_nat 2 = ''2''" by code_simp

text \<open>
  \<open>stop\<close> in general: it raises no exception; it returns unless the server is running
  and its thread has not yet executed the first statement of \<open>socket::run\<close>; and when it
  has returned, the server is not running and a further call returns the state it is
  given.
\<close>

lemma stop_raises_nothing: "stop srv \<noteq> Some (ThrowsStd what) \<and> stop srv \<noteq> Some ThrowsOther"
  by (cases "m_server_thread srv")
    (auto simp: stop_def Let_def thread_join_def split: if_splits)

lemma socket_stop_run_returns: "run_returns (socket_stop sock) InLoop"
  by (simp add: run_returns_def socket_stop_def Let_def)

lemma stop_hangs_iff:
  "stop srv = None \<longleftrightarrow> server.m_running srv \<and> m_server_thread srv = Joinable NotEntered"
proof (cases "m_server_thread srv")
  case NotAThread
  then show ?thesis by (simp add: stop_def Let_def)
next
  case (Joinable p)
  then show ?thesis
    by (cases p)
      (simp_all add: stop_def Let_def thread_join_def socket_stop_run_returns,
        simp_all add: run_returns_def)
qed

lemma stop_again:
  "stop srv = Some (Returns srv1) \<Longrightarrow>
   \<not> server.m_running srv1 \<and> stop srv1 = Some (Returns srv1)"
  by (cases "m_server_thread srv")
    (auto simp: stop_def Let_def thread_join_def split: if_splits)

section \<open>The claims\<close>

text \<open>
  C1 (as amended). For every response the core serialises, the output is the status
  line, then one line for every entry of the header map, in the order of the map, then
  a synthesised \<open>Content-Length\<close> header, the blank line and the body; the value of the
  synthesised header is the decimal byte length of the body. So the synthesised header
  is added after the entries of the map and replaces none of them: every entry, a
  \<open>Content-Length\<close> the handler set too, has its line before the synthesised one. What a
  connection sends for a response that its dispatch callback returns is this
  serialisation.
\<close>

theorem buildResponse_content_length:
  "buildResponse r =
     ''HTTP/1.1 '' @ show_int (status_code r) @ '' '' @ status_text r @ CRLF
     @ concat (map (\<lambda>h. fst h @ '': '' @ snd h @ CRLF) (HttpResponse.headers r))
     @ ''Content-Length: '' @ show_nat (length (HttpResponse.body r)) @ CRLF @ CRLF
     @ HttpResponse.body r
   \<and> suffix (''Content-Length: '' @ show_nat (length (HttpResponse.body r)) @ CRLF @ CRLF
      @ HttpResponse.body r) (buildResponse r)
   \<and> read_nat (show_nat (length (HttpResponse.body r))) = length (HttpResponse.body r)
   \<and> (\<forall>k v. (k, v) \<in> set (HttpResponse.headers r) \<longrightarrow>
        (\<exists>pre mid. buildResponse r =
           pre @ (k @ '': '' @ v @ CRLF) @ mid
           @ ''Content-Length: '' @ show_nat (length (HttpResponse.body r)) @ CRLF @ CRLF
           @ HttpResponse.body r))
   \<and> (\<forall>k v. (k, v) \<in> set (HttpResponse.headers r) \<longrightarrow>
        sublist (k @ '': '' @ v @ CRLF) (buildResponse r))
   \<and> (take 4095 buf \<noteq> []
        \<and> parseRequest (takeWhile (\<lambda>c. c \<noteq> CHR 0x00) (take 4095 buf)) = Inr request
        \<and> handler request = Returns r
      \<longrightarrow> handleClient handler (ReadData buf) = Sent (buildResponse r))"
proof (intro conjI allI impI)
  have hl: "header_line = (\<lambda>h. fst h @ '': '' @ snd h @ CRLF)"
    by (rule ext) (simp add: header_line_def)
  show "buildResponse r =
     ''HTTP/1.1 '' @ show_int (status_code r) @ '' '' @ status_text r @ CRLF
     @ concat (map (\<lambda>h. fst h @ '': '' @ snd h @ CRLF) (HttpResponse.headers r))
     @ ''Content-Length: '' @ show_nat (length (HttpResponse.body r)) @ CRLF @ CRLF
     @ HttpResponse.body r"
    unfolding buildResponse_def status_line_def hl by simp
  show "suffix (''Content-Length: '' @ show_nat (length (HttpResponse.body r)) @ CRLF @ CRLF
      @ HttpResponse.body r) (buildResponse r)"
    unfolding buildResponse_def suffix_def by simp
  show "read_nat (show_nat (length (HttpResponse.body r))) = length (HttpResponse.body r)"
    by (rule read_show_nat)
  {
    fix k v
    assume kv: "(k, v) \<in> set (HttpResponse.headers r)"
    from header_line_before_tail [OF kv, of "status_line r"
        "''Content-Length: '' @ show_nat (length (HttpResponse.body r)) @ CRLF @ CRLF
           @ HttpResponse.body r"]
    show "\<exists>pre mid. buildResponse r =
           pre @ (k @ '': '' @ v @ CRLF) @ mid
           @ ''Content-Length: '' @ show_nat (length (HttpResponse.body r)) @ CRLF @ CRLF
           @ HttpResponse.body r"
      unfolding buildResponse_def by simp
  next
    fix k v
    assume "(k, v) \<in> set (HttpResponse.headers r)"
    then have "sublist (k @ '': '' @ v @ CRLF) (concat (map header_line (HttpResponse.headers r)))"
      by (rule header_line_sublist)
    then obtain ps ss where
      "concat (map header_line (HttpResponse.headers r)) = ps @ (k @ '': '' @ v @ CRLF) @ ss"
      unfolding sublist_def by blast
    then have "buildResponse r = (status_line r @ ps) @ (k @ '': '' @ v @ CRLF)
        @ (ss @ ''Content-Length: '' @ show_nat (length (HttpResponse.body r)) @ CRLF @ CRLF
           @ HttpResponse.body r)"
      unfolding buildResponse_def by simp
    then show "sublist (k @ '': '' @ v @ CRLF) (buildResponse r)"
      unfolding sublist_def by blast
  next
    assume "take 4095 buf \<noteq> []
        \<and> parseRequest (takeWhile (\<lambda>c. c \<noteq> CHR 0x00) (take 4095 buf)) = Inr request
        \<and> handler request = Returns r"
    then show "handleClient handler (ReadData buf) = Sent (buildResponse r)"
      by (simp add: handleClient_sends)
  }
qed

theorem buildResponse_content_length_witness:
  "buildResponse echoed_length_response =
     ''HTTP/1.1 200 OK'' @ CRLF @ ''Content-Length: 2'' @ CRLF @ ''Content-Length: 2'' @ CRLF
     @ CRLF @ ''ab''
   \<and> (\<exists>pre mid. buildResponse forged_length_response =
         pre @ (''Content-Length: 5'' @ CRLF) @ mid @ ''Content-Length: 11'' @ CRLF @ CRLF
         @ ''hello world'')
   \<and> suffix (''Content-Length: 11'' @ CRLF @ CRLF @ ''hello world'') (buildResponse forged_length_response)
   \<and> read_nat ''11'' = 11
   \<and> sublist (''Content-Length: 5'' @ CRLF) (buildResponse forged_length_response)
   \<and> sublist (''Content-Type: text/html'' @ CRLF) (buildResponse forged_length_response)
   \<and> handleClient forged_length_handler (ReadData get_root_bytes)
     = Sent (buildResponse forged_length_response)"
proof -
  have l: "length ''hello world'' = 11" by simp
  have l2: "length ''ab'' = 2" by simp
  have a: "take 4095 get_root_bytes \<noteq> []" by code_simp
  have b: "parseRequest (takeWhile (\<lambda>c. c \<noteq> CHR 0x00) (take 4095 get_root_bytes))
      = Inr get_root_request"
    by code_simp
  have c: "forged_length_handler get_root_request = Returns forged_length_response"
    by (simp add: forged_length_handler_def)
  note t = buildResponse_content_length
    [of forged_length_response get_root_bytes get_root_request forged_length_handler,
      unfolded forged_body forged_headers l show_nat_11]
  note u = buildResponse_content_length
    [of echoed_length_response get_root_bytes get_root_request forged_length_handler,
      unfolded echoed_fields l2 show_nat_2 show_200]
  note u1 = u [THEN conjunct1]
  note tD = t [THEN conjunct2, THEN conjunct2, THEN conjunct2, THEN conjunct1]
  note tB = t [THEN conjunct2, THEN conjunct1]
  note tC = t [THEN conjunct2, THEN conjunct2, THEN conjunct1]
  note tE = t [THEN conjunct2, THEN conjunct2, THEN conjunct2, THEN conjunct2, THEN conjunct1]
  note tF = t [THEN conjunct2, THEN conjunct2, THEN conjunct2, THEN conjunct2, THEN conjunct2]
  from u1 have 1: "buildResponse echoed_length_response =
     ''HTTP/1.1 200 OK'' @ CRLF @ ''Content-Length: 2'' @ CRLF @ ''Content-Length: 2'' @ CRLF
     @ CRLF @ ''ab''"
    by simp
  from tD have "(''Content-Length'', ''5'')
        \<in> set [(''Content-Length'', ''5''), (''Content-Type'', ''text/html'')] \<longrightarrow>
        (\<exists>pre mid. buildResponse forged_length_response =
           pre @ (''Content-Length'' @ '': '' @ ''5'' @ CRLF) @ mid
           @ ''Content-Length: '' @ ''11'' @ CRLF @ CRLF @ ''hello world'')"
    by blast
  then have 2: "\<exists>pre mid. buildResponse forged_length_response =
         pre @ (''Content-Length: 5'' @ CRLF) @ mid @ ''Content-Length: 11'' @ CRLF @ CRLF
         @ ''hello world''"
    by simp
  from tB tC tE tF a b c have 3: "suffix (''Content-Length: 11'' @ CRLF @ CRLF @ ''hello world'') (buildResponse forged_length_response)
   \<and> read_nat ''11'' = 11
   \<and> sublist (''Content-Length: 5'' @ CRLF) (buildResponse forged_length_response)
   \<and> sublist (''Content-Type: text/html'' @ CRLF) (buildResponse forged_length_response)
   \<and> handleClient forged_length_handler (ReadData get_root_bytes)
     = Sent (buildResponse forged_length_response)"
    by simp
  from 1 2 3 show ?thesis by blast
qed

text \<open>
  C1 as stated fails: a handler that sets \<open>Content-Length: 5\<close> on a body of 11 bytes gets
  both headers sent, its own value first.
\<close>

theorem buildResponse_override_counterexample:
  "map_find (HttpResponse.headers forged_length_response) ''Content-Length'' = Some ''5''
   \<and> length (HttpResponse.body forged_length_response) = 11
   \<and> buildResponse forged_length_response =
     ''HTTP/1.1 200 OK'' @ CRLF @ ''Content-Length: 5'' @ CRLF @ ''Content-Type: text/html'' @ CRLF
     @ ''Content-Length: 11'' @ CRLF @ CRLF @ ''hello world''
   \<and> handleClient forged_length_handler (ReadData get_root_bytes)
     = Sent (''HTTP/1.1 200 OK'' @ CRLF @ ''Content-Length: 5'' @ CRLF
         @ ''Content-Type: text/html'' @ CRLF @ ''Content-Length: 11'' @ CRLF @ CRLF
         @ ''hello world'')"
  by code_simp




text \<open>
  C3. A handler registered by \<open>get\<close>, \<open>post\<close>, \<open>put\<close> or \<open>del\<close> and not overwritten by a
  later registration of the same method and path answers every request with that
  method and exactly that path: dispatch returns what the handler returns, whatever
  was registered before and whatever else is registered after.
\<close>

theorem routeRequest_registered:
  assumes "method request = reg_method r" and "path request = reg_path r"
    and "\<forall>r' \<in> set later. \<not> (reg_method r' = reg_method r \<and> reg_path r' = reg_path r)"
  shows "routeRequest (register_all (earlier @ [r] @ later) srv) request = reg_handler r request"
proof -
  have "routeRequest (register_all (earlier @ [r] @ later) srv) request
      = routeRequest (register_all later (register r (register_all earlier srv))) request"
    by (simp add: register_all_append register_all_def)
  also have "\<dots> = routeRequest (register r (register_all earlier srv)) request"
    using assms by (intro routeRequest_later) simp
  also have "\<dots> = reg_handler r request"
    using assms(1,2) by (simp add: routeRequest_register)
  finally show ?thesis .
qed

theorem routeRequest_registered_witness:
  "routeRequest
     (register_all
        ([Get ''/'' throws_int] @ [Get ''/'' hi_handler]
         @ [Post ''/'' echo_handler, Get ''/x'' echo_handler])
        (created 8080 3))
     get_root_request
   = Returns (html ''<h1>Hi</h1>'' 200)"
  using routeRequest_registered
    [of get_root_request "Get ''/'' hi_handler"
      "[Post ''/'' echo_handler, Get ''/x'' echo_handler]" "[Get ''/'' throws_int]"
      "created 8080 3"]
  by (simp add: get_root_request_def hi_handler_def)

text \<open>
  C4. When the method of a request is absent from the route table, or the path is
  absent from the table of that method, dispatch returns the fixed response with
  status 404, text \<open>Not Found\<close>, the one header \<open>Content-Type: text/html\<close> and the fixed
  page as body, whatever the headers and the body of the request are. This is the case
  for every request that no registration of the server names.
\<close>

theorem routeRequest_not_found:
  "(map_find (m_routes srv) (method request) = None \<or>
    (\<exists>sub. map_find (m_routes srv) (method request) = Some sub \<and> map_find sub (path request) = None)
    \<longrightarrow> routeRequest srv request =
      Returns \<lparr>status_code = 404, status_text = ''Not Found'',
        HttpResponse.headers = [(''Content-Type'', ''text/html'')],
        HttpResponse.body = ''<html><body><h1>404 - Not Found</h1></body></html>''\<rparr>)
   \<and> ((\<forall>r \<in> set regs. \<not> (reg_method r = method request \<and> reg_path r = path request))
    \<longrightarrow> routeRequest (register_all regs (created port fd)) request =
      Returns \<lparr>status_code = 404, status_text = ''Not Found'',
        HttpResponse.headers = [(''Content-Type'', ''text/html'')],
        HttpResponse.body = ''<html><body><h1>404 - Not Found</h1></body></html>''\<rparr>)"
proof (intro conjI impI)
  assume "map_find (m_routes srv) (method request) = None \<or>
    (\<exists>sub. map_find (m_routes srv) (method request) = Some sub \<and> map_find sub (path request) = None)"
  then show "routeRequest srv request =
      Returns \<lparr>status_code = 404, status_text = ''Not Found'',
        HttpResponse.headers = [(''Content-Type'', ''text/html'')],
        HttpResponse.body = ''<html><body><h1>404 - Not Found</h1></body></html>''\<rparr>"
    unfolding not_found_response_eq [symmetric] by (auto simp: routeRequest_def)
next
  assume "\<forall>r \<in> set regs. \<not> (reg_method r = method request \<and> reg_path r = path request)"
  then have "routeRequest (register_all regs (created port fd)) request
      = routeRequest (created port fd) request"
    by (rule routeRequest_later)
  then show "routeRequest (register_all regs (created port fd)) request =
      Returns \<lparr>status_code = 404, status_text = ''Not Found'',
        HttpResponse.headers = [(''Content-Type'', ''text/html'')],
        HttpResponse.body = ''<html><body><h1>404 - Not Found</h1></body></html>''\<rparr>"
    by (simp add: routeRequest_created not_found_response_eq)
qed

theorem routeRequest_not_found_witness:
  "routeRequest (created 8080 3) get_root_request = Returns not_found_response
   \<and> routeRequest
       (register_all [Post ''/'' echo_handler, Get ''/x'' echo_handler] (created 8080 3))
       get_root_request
     = Returns not_found_response"
  using routeRequest_not_found
    [of "created 8080 3" get_root_request "[Post ''/'' echo_handler, Get ''/x'' echo_handler]"
      8080 3]
  by (simp add: get_root_request_def created_def map_find_empty not_found_response_eq)

text \<open>
  C5. The claim is that \<open>parseRequest\<close> returns a request for every input string and
  performs no invalid operation. The code calls \<open>line.back()\<close> on the line it has read
  without a check that the line is not empty, for the request line and for every header
  line, while the sibling test \<open>!value.empty() && value[0] == ' '\<close> has the check. On
  the input of a single line feed the first line is empty: the call is undefined
  behaviour, and a connection that sends this byte reaches it. By
  \<open>parseRequest_returns_iff\<close> the inputs with an empty line among the request line and the
  header lines are the only ones on which the parser does not return.
\<close>

theorem parseRequest_empty_first_line:
  "parseRequest [LF] = Inl UndefinedBehaviour
   \<and> handleClient default_handler (ReadData [LF]) = Undefined"
  by code_simp

text \<open>
  C6. The claim is that every header line is split at its first colon into the name
  and the value less one leading space, that a line with no colon is silently skipped
  and that of two lines with one name the later wins. An empty header line, as a
  request with bare line feeds for line ends has before its body, has no colon, and the
  header loop calls \<open>line.back()\<close> on it: undefined behaviour where the claim has a
  skip. A line with no colon that is not empty is skipped, and on every input on which
  the parser returns the header map is the one the claim describes
  (\<open>parseRequest_headers\<close>).
\<close>

theorem parseRequest_empty_header_line:
  "parseRequest (''GET / HTTP/1.1'' @ CRLF @ [LF] @ ''Host: a'' @ CRLF @ CRLF)
     = Inl UndefinedBehaviour
   \<and> parseRequest (''GET / HTTP/1.1'' @ CRLF @ ''junk'' @ [LF] @ ''Host: a'' @ CRLF @ CRLF)
     = Inr \<lparr>method = ''GET'', path = ''/'', version = ''HTTP/1.1'',
          headers = [(''Host'', ''a'')], body = []\<rparr>"
  by code_simp

text \<open>
  C7. The claim is that the first line is split on white space into method, path and
  version, and that a first line with fewer than three tokens leaves the missing fields
  empty and raises no error. An empty first line has no token, and the code calls
  \<open>line.back()\<close> on it before it splits the line: undefined behaviour where the claim has
  three empty fields. A first line of one token that is not empty leaves the path and
  the version empty, and on every input on which the parser returns the three fields
  are the first three tokens of the request line (\<open>parseRequest_request_line\<close>).
\<close>

theorem parseRequest_first_line_no_token:
  "parseRequest ([LF] @ ''Host: a'' @ CRLF @ CRLF) = Inl UndefinedBehaviour
   \<and> parseRequest (''GET'' @ CRLF @ ''Host: a'' @ CRLF @ CRLF)
     = Inr \<lparr>method = ''GET'', path = [], version = [], headers = [(''Host'', ''a'')], body = []\<rparr>"
  by code_simp

text \<open>
  C8. The claim is that for every input the body of the request is the lines after the
  header-terminator line, joined with single line feeds. A request with bare line feeds
  for line ends has an empty line before its body; the header loop does not end there
  but calls \<open>line.back()\<close> on the empty line, undefined behaviour, and no body is
  assigned. With a carriage return and a line feed for line ends the same request has
  the body the claim describes, as has every input on which the parser returns
  (\<open>parseRequest_body\<close>).
\<close>

theorem parseRequest_bare_line_feeds:
  "parseRequest (''POST /echo HTTP/1.1'' @ [LF] @ [LF] @ ''abc'' @ [LF] @ ''def'')
     = Inl UndefinedBehaviour
   \<and> parseRequest (''POST /echo HTTP/1.1'' @ CRLF @ CRLF @ ''abc'' @ [LF] @ ''def'')
     = Inr \<lparr>method = ''POST'', path = ''/echo'', version = ''HTTP/1.1'', headers = [],
          body = ''abc'' @ [LF] @ ''def''\<rparr>"
  by code_simp

text \<open>
  C9. The claim is that two calls of \<open>stop\<close> in succession neither raise an error nor
  hang, the second being a no-op. \<open>server::start\<close> sets the flag of the server before it
  creates the thread, but the flag of the socket is set by the thread itself, in the
  first statement of \<open>socket::run\<close>. A call of \<open>stop\<close> that runs before that statement has
  its store of \<open>false\<close> overwritten: the accept loop never ends and the first call stays
  in \<open>join\<close>. Once the thread is in its loop the first call returns, and the second call
  returns the stopped server unchanged.
\<close>

theorem stop_before_run_begins:
  "start (created 8080 3) = Started started_server
   \<and> stop started_server = None
   \<and> run_begins started_server = serving_server
   \<and> stop serving_server = Some (Returns stopped_server)
   \<and> stop stopped_server = Some (Returns stopped_server)"
  by (simp add: start_def created_def started_server_def stop_def socket_stop_def
      thread_join_def run_returns_def run_begins_def serving_server_def stopped_server_def)

text \<open>
  C10. The header map of a response, whatever the order of the assignments that built
  it, holds its entries in strictly ascending order of the header names, and the
  serialiser emits them in that order: of two headers, the line of the one with the
  smaller name comes first in the output. Two sequences of assignments that give the
  same set of headers give the same serialised response.
\<close>

theorem buildResponse_header_order:
  "sorted_wrt (<) (map fst (map_assign_all kvs []))
   \<and> (\<forall>a b. a \<in> set (map_assign_all kvs []) \<and> b \<in> set (map_assign_all kvs []) \<and> fst a < fst b
        \<longrightarrow> (\<exists>pre mid post.
              buildResponse (r\<lparr>HttpResponse.headers := map_assign_all kvs []\<rparr>)
              = pre @ header_line a @ mid @ header_line b @ post))
   \<and> (map_of (map_assign_all kvs []) = map_of (map_assign_all kvs' []) \<longrightarrow>
      buildResponse (r\<lparr>HttpResponse.headers := map_assign_all kvs []\<rparr>)
      = buildResponse (r\<lparr>HttpResponse.headers := map_assign_all kvs' []\<rparr>))"
proof (intro conjI impI allI)
  show s: "sorted_wrt (<) (map fst (map_assign_all kvs []))"
    by (rule map_assign_all_sorted)
  {
    fix a b :: "string \<times> string"
    assume "a \<in> set (map_assign_all kvs []) \<and> b \<in> set (map_assign_all kvs []) \<and> fst a < fst b"
    with header_lines_in_order [OF s] obtain pre mid post where
      "concat (map header_line (map_assign_all kvs [])) = pre @ header_line a @ mid @ header_line b @ post"
      by blast
    then have "buildResponse (r\<lparr>HttpResponse.headers := map_assign_all kvs []\<rparr>)
        = (status_line r @ pre) @ header_line a @ mid @ header_line b
          @ (post @ ''Content-Length: '' @ show_nat (length (HttpResponse.body r)) @ CRLF @ CRLF
             @ HttpResponse.body r)"
      by (simp add: buildResponse_def status_line_def)
    then show "\<exists>pre mid post.
        buildResponse (r\<lparr>HttpResponse.headers := map_assign_all kvs []\<rparr>)
        = pre @ header_line a @ mid @ header_line b @ post"
      by blast
  next
    assume "map_of (map_assign_all kvs []) = map_of (map_assign_all kvs' [])"
    then have "(map_assign_all kvs [] :: string std_map) = map_assign_all kvs' []"
      by (intro map_ok_unique map_ok_assign_all map_ok_empty)
    then show "buildResponse (r\<lparr>HttpResponse.headers := map_assign_all kvs []\<rparr>)
        = buildResponse (r\<lparr>HttpResponse.headers := map_assign_all kvs' []\<rparr>)"
      by simp
  }
qed

theorem buildResponse_header_order_witness:
  "map_assign_all [(''Content-Type'', ''text/html''), (''Cache-Control'', ''no-cache'')] []
     = [(''Cache-Control'', ''no-cache''), (''Content-Type'', ''text/html'')]
   \<and> (\<exists>pre mid post.
        buildResponse (default_response\<lparr>HttpResponse.headers :=
          map_assign_all [(''Content-Type'', ''text/html''), (''Cache-Control'', ''no-cache'')] []\<rparr>)
        = pre @ (''Cache-Control: no-cache'' @ CRLF) @ mid @ (''Content-Type: text/html'' @ CRLF) @ post)
   \<and> buildResponse (default_response\<lparr>HttpResponse.headers :=
         map_assign_all [(''Content-Type'', ''text/html''), (''Cache-Control'', ''no-cache'')] []\<rparr>)
     = buildResponse (default_response\<lparr>HttpResponse.headers :=
         map_assign_all [(''Cache-Control'', ''no-cache''), (''Content-Type'', ''text/html'')] []\<rparr>)"
proof -
  let ?kvs = "[(''Content-Type'', ''text/html''), (''Cache-Control'', ''no-cache'')]"
  let ?kvs' = "[(''Cache-Control'', ''no-cache''), (''Content-Type'', ''text/html'')]"
  have e: "map_assign_all ?kvs [] = ?kvs'"
    by code_simp
  have e': "map_assign_all ?kvs' [] = ?kvs'"
    by code_simp
  have lt: "''Cache-Control'' < ''Content-Type''"
    by simp
  note t = buildResponse_header_order [of ?kvs default_response ?kvs']
  from t have "\<forall>a b. a \<in> set (map_assign_all ?kvs []) \<and> b \<in> set (map_assign_all ?kvs []) \<and> fst a < fst b
        \<longrightarrow> (\<exists>pre mid post.
              buildResponse (default_response\<lparr>HttpResponse.headers := map_assign_all ?kvs []\<rparr>)
              = pre @ header_line a @ mid @ header_line b @ post)"
    by blast
  then have "(''Cache-Control'', ''no-cache'') \<in> set (map_assign_all ?kvs [])
        \<and> (''Content-Type'', ''text/html'') \<in> set (map_assign_all ?kvs [])
        \<and> fst (''Cache-Control'', ''no-cache'') < fst (''Content-Type'', ''text/html'')
        \<longrightarrow> (\<exists>pre mid post.
              buildResponse (default_response\<lparr>HttpResponse.headers := map_assign_all ?kvs []\<rparr>)
              = pre @ header_line (''Cache-Control'', ''no-cache'') @ mid
                @ header_line (''Content-Type'', ''text/html'') @ post)"
    by blast
  then have 2: "\<exists>pre mid post.
              buildResponse (default_response\<lparr>HttpResponse.headers := map_assign_all ?kvs []\<rparr>)
              = pre @ header_line (''Cache-Control'', ''no-cache'') @ mid
                @ header_line (''Content-Type'', ''text/html'') @ post"
    using lt by (simp add: e)
  from t have 3: "buildResponse (default_response\<lparr>HttpResponse.headers := map_assign_all ?kvs []\<rparr>)
      = buildResponse (default_response\<lparr>HttpResponse.headers := map_assign_all ?kvs' []\<rparr>)"
    by (simp add: e e')
  from 2 have c2: "\<exists>pre mid post.
        buildResponse (default_response\<lparr>HttpResponse.headers := map_assign_all ?kvs []\<rparr>)
        = pre @ (''Cache-Control: no-cache'' @ CRLF) @ mid @ (''Content-Type: text/html'' @ CRLF) @ post"
    by (simp add: header_line_def)
  from e c2 3 show ?thesis by blast
qed

end
